theory Spec2Isabelle
  imports Main
begin

section \<open>Bit sequences, slices and descending ranges\<close>

text \<open>
  The source works on \<^verbatim>\<open>bitarray\<close> objects. A bit sequence is a list of booleans.
  Values of HOL are immutable, so the defensive \<^verbatim>\<open>.copy()\<close> calls of the source are
  the identity here and are not written out.
\<close>

type_synonym bitarray = "bool list"

text \<open>
  \<^verbatim>\<open>content[:size]\<close> as Python evaluates it: a bound beyond the end is clamped, a negative
  bound counts from the end.
\<close>

definition py_prefix :: "bitarray \<Rightarrow> int \<Rightarrow> bitarray" where
  "py_prefix content sz =
     (if 0 \<le> sz then take (nat sz) content
      else take (nat (int (length content) + sz)) content)"

text \<open>
  \<^verbatim>\<open>xrange(start, stop, -1)\<close>: start, start - 1, ... as long as the value is above stop.
\<close>

function xrange_down :: "int \<Rightarrow> int \<Rightarrow> int list" where
  "xrange_down start stop =
     (if stop < start then start # xrange_down (start - 1) stop else [])"
  by pat_completeness auto
termination
  by (relation "measure (\<lambda>(start, stop). nat (start - stop))") auto

declare xrange_down.simps [simp del]

section \<open>The collaborators of the leaf\<close>

datatype SVAS = CONSTANT | PERSISTENT | EPHEMERAL | VOLATILE

text \<open>
  Modelled from the spec: the field type (\<^verbatim>\<open>self.dataType\<close>), whose class is not part of
  the source file. The spec gives its contract as
  \<^verbatim>\<open>size_bounds() -> (min: usize, max: Option<usize>)\<close>, \<^verbatim>\<open>can_parse(bits) -> bool\<close> and
  \<^verbatim>\<open>generate() -> bits\<close>. The generator draws fresh values; its source of randomness is
  a state that each call reads and advances.
\<close>

record fieldType =
  size_bounds :: "nat \<times> nat option"
  canParse :: "bitarray \<Rightarrow> bool"
  generate :: "nat \<Rightarrow> bitarray \<times> nat"

text \<open>
  The \<^verbatim>\<open>Data\<close> object: its identity, its type, its own value (\<^verbatim>\<open>currentValue\<close>, which
  may be \<^verbatim>\<open>None\<close>) and its value-sharing mode.
\<close>

record data =
  ident :: nat
  dataType :: fieldType
  currentValue :: "bitarray option"
  svas :: SVAS

text \<open>
  Modelled from the spec: the Binding Store (\<^verbatim>\<open>Memory\<close>), whose class is not part of the
  source file: a mapping from field identity to a remembered bit sequence, with
  \<^verbatim>\<open>has_value\<close>, \<^verbatim>\<open>get_value\<close> and \<^verbatim>\<open>memorize\<close>. Stores are objects that several paths
  may reference, so they live at addresses of a heap; the state of the program is this
  heap, the number of stores created so far (the next free address) and the state of
  the generator's randomness.
\<close>

type_synonym store = "nat \<rightharpoonup> bitarray"

record world =
  memories :: "nat \<Rightarrow> store"
  entropy :: nat
  allocated :: nat

definition hasValue :: "world \<Rightarrow> nat \<Rightarrow> data \<Rightarrow> bool" where
  "hasValue w r d = (memories w r (ident d) \<noteq> None)"

definition getValue :: "world \<Rightarrow> nat \<Rightarrow> data \<Rightarrow> bitarray option" where
  "getValue w r d = memories w r (ident d)"

definition memorize :: "nat \<Rightarrow> data \<Rightarrow> bitarray \<Rightarrow> world \<Rightarrow> world" where
  "memorize r d v w = w\<lparr>memories := (memories w)(r := (memories w r)(ident d \<mapsto> v))\<rparr>"

text \<open>
  Modelled from the spec: the Path (\<^verbatim>\<open>GenericPath\<close>, \<^verbatim>\<open>ParsingPath\<close>,
  \<^verbatim>\<open>SpecializingPath\<close>), whose classes are not part of the source file. A path carries a
  reference to a Binding Store (which the source tests against \<^verbatim>\<open>None\<close>), the residual
  content assigned to each field for parsing, and an accumulating result mapping from
  field to bits. \<^verbatim>\<open>duplicate()\<close> gives an independent branch that shares the same store
  reference; \<^verbatim>\<open>add_result(field, bits)\<close> records the field's result.
\<close>

record path =
  memory :: "nat option"
  dataAssignedToVariable :: "nat \<rightharpoonup> bitarray"
  results :: "nat \<rightharpoonup> bitarray"

definition duplicate :: "path \<Rightarrow> path" where
  "duplicate p =
     \<lparr>memory = memory p,
      dataAssignedToVariable = dataAssignedToVariable p,
      results = results p\<rparr>"

definition addResult :: "data \<Rightarrow> bitarray \<Rightarrow> path \<Rightarrow> path" where
  "addResult d v p = p\<lparr>results := (results p)(ident d \<mapsto> v)\<rparr>"

definition getDataAssignedToVariable :: "path \<Rightarrow> data \<Rightarrow> bitarray option" where
  "getDataAssignedToVariable p d = dataAssignedToVariable p (ident d)"

section \<open>The operations of \<^verbatim>\<open>Data\<close>\<close>

text \<open>
  Every \<^verbatim>\<open>raise\<close> of the source, and every failure of an operation on \<^verbatim>\<open>None\<close>, is an
  error value. The exceptions raised with a message are told apart by their message.
  All raises of an operation happen before its first write to the store, so an error
  leaves the stores as they were. The parameter \<^verbatim>\<open>acceptCallBack\<close> is read by no
  operation and is left out.
\<close>

datatype error =
    PathCannotBeNone
  | NoMemoryAttached
  | NoMemoryAvailable
  | NoValueDefined
  | NoDataAssigned
  | TypeError
  | AttributeError

definition isDefined :: "data \<Rightarrow> path option \<Rightarrow> world \<Rightarrow> error + bool" where
  "isDefined d pathArg w =
     (case pathArg of
        None \<Rightarrow> Inl PathCannotBeNone
      | Some p \<Rightarrow>
          if currentValue d \<noteq> None then Inr True
          else (case memory p of
                  None \<Rightarrow> Inl NoMemoryAttached
                | Some r \<Rightarrow> Inr (hasValue w r d)))"

text \<open>
  The loop of \<^verbatim>\<open>domainCMP\<close>: for each candidate size in turn, an accepted size appends a
  duplicate of the path with the prefix recorded.
\<close>

fun domainCMP_loop :: "data \<Rightarrow> path \<Rightarrow> bitarray \<Rightarrow> int list \<Rightarrow> path list \<Rightarrow> path list" where
  "domainCMP_loop d p content [] rs = rs"
| "domainCMP_loop d p content (sz # sizes) rs =
     (if sz = 0 \<or> canParse (dataType d) (py_prefix content sz)
      then domainCMP_loop d p content sizes
             (rs @ [addResult d (py_prefix content sz) (duplicate p)])
      else domainCMP_loop d p content sizes rs)"

definition domainCMP :: "data \<Rightarrow> path option \<Rightarrow> bool \<Rightarrow> world \<Rightarrow> error + (path list \<times> world)" where
  "domainCMP d parsingPath carnivorous w =
     (case parsingPath of
        None \<Rightarrow> Inl PathCannotBeNone
      | Some p \<Rightarrow>
          (case getDataAssignedToVariable p d of
             None \<Rightarrow> Inl TypeError
           | Some content \<Rightarrow>
               (let minSize = fst (size_bounds (dataType d));
                    maxSize = (case snd (size_bounds (dataType d)) of
                                 None \<Rightarrow> length content
                               | Some m \<Rightarrow> m)
                in if length content < minSize then Inr ([], w)
                   else
                     (let minSize' = (if carnivorous then length content else minSize);
                          maxSize' = (if carnivorous then length content else maxSize)
                      in Inr (domainCMP_loop d p content
                                (xrange_down (int (min maxSize' (length content)))
                                   (int minSize' - 1)) [],
                              w)))))"

definition valueCMP :: "data \<Rightarrow> path option \<Rightarrow> bool \<Rightarrow> world \<Rightarrow> error + (path list \<times> world)" where
  "valueCMP d parsingPath carnivorous w =
     (case parsingPath of
        None \<Rightarrow> Inl PathCannotBeNone
      | Some p \<Rightarrow>
          (case memory p of
             None \<Rightarrow> Inl NoMemoryAvailable
           | Some r \<Rightarrow>
               (case (if hasValue w r d then getValue w r d else currentValue d) of
                  None \<Rightarrow> Inl NoValueDefined
                | Some expectedValue \<Rightarrow>
                    (case getDataAssignedToVariable p d of
                       None \<Rightarrow> Inl NoDataAssigned
                     | Some content \<Rightarrow>
                         if length expectedValue \<le> length content
                            \<and> py_prefix content (int (length expectedValue)) = expectedValue
                         then Inr ([addResult d expectedValue p], w)
                         else Inr ([], w)))))"

text \<open>
  The loop of \<^verbatim>\<open>learn\<close>: as the loop of \<^verbatim>\<open>domainCMP\<close>, and each accepted size also
  memorizes the prefix in the store of the new path. A new path without a store makes
  \<^verbatim>\<open>newParsingPath.memory.memorize\<close> fail, before any write.
\<close>

fun learn_loop :: "data \<Rightarrow> path \<Rightarrow> bitarray \<Rightarrow> int list \<Rightarrow> path list \<Rightarrow> world \<Rightarrow> error + (path list \<times> world)" where
  "learn_loop d p content [] rs w = Inr (rs, w)"
| "learn_loop d p content (sz # sizes) rs w =
     (if sz = 0 \<or> canParse (dataType d) (py_prefix content sz)
      then (let newParsingPath = addResult d (py_prefix content sz) (duplicate p)
            in case memory newParsingPath of
                 None \<Rightarrow> Inl AttributeError
               | Some r \<Rightarrow>
                   learn_loop d p content sizes (rs @ [newParsingPath])
                     (memorize r d (py_prefix content sz) w))
      else learn_loop d p content sizes rs w)"

definition learn :: "data \<Rightarrow> path option \<Rightarrow> bool \<Rightarrow> world \<Rightarrow> error + (path list \<times> world)" where
  "learn d parsingPath carnivorous w =
     (case parsingPath of
        None \<Rightarrow> Inl PathCannotBeNone
      | Some p \<Rightarrow>
          (case getDataAssignedToVariable p d of
             None \<Rightarrow> Inl TypeError
           | Some content \<Rightarrow>
               (let minSize = fst (size_bounds (dataType d));
                    maxSize = (case snd (size_bounds (dataType d)) of
                                 None \<Rightarrow> length content
                               | Some m \<Rightarrow> m)
                in if length content < minSize then Inr ([], w)
                   else
                     (let minSize' = (if carnivorous then length content else minSize);
                          maxSize' = (if carnivorous then length content else maxSize)
                      in learn_loop d p content
                           (xrange_down (int (min maxSize' (length content)))
                              (int minSize' - 1)) [] w))))"

text \<open>
  Which store the new path of a branch references is decided by \<^verbatim>\<open>Path.duplicate\<close>, whose
  class is not part of the source file. \<^verbatim>\<open>learn_with\<close> is \<^verbatim>\<open>learn\<close> with the duplicate as
  a parameter: the duplicate gets the path and the state and returns the new path and
  the state (a duplicate may create a store). Two duplicates are given. The first is the
  duplicate of the spec, which shares the store reference; \<^verbatim>\<open>learn\<close> is \<^verbatim>\<open>learn_with\<close> at
  this duplicate. The second copies the store of the path to the next free address, so
  that the new path has a store of its own.
\<close>

definition duplicate_sharing :: "path \<Rightarrow> world \<Rightarrow> path \<times> world" where
  "duplicate_sharing p w = (duplicate p, w)"


fun learn_loop_with :: "(path \<Rightarrow> world \<Rightarrow> path \<times> world) \<Rightarrow> data \<Rightarrow> path \<Rightarrow> bitarray \<Rightarrow> int list \<Rightarrow> path list \<Rightarrow> world \<Rightarrow> error + (path list \<times> world)" where
  "learn_loop_with dup d p content [] rs w = Inr (rs, w)"
| "learn_loop_with dup d p content (sz # sizes) rs w =
     (if sz = 0 \<or> canParse (dataType d) (py_prefix content sz)
      then (let newParsingPath = addResult d (py_prefix content sz) (fst (dup p w))
            in case memory newParsingPath of
                 None \<Rightarrow> Inl AttributeError
               | Some r \<Rightarrow>
                   learn_loop_with dup d p content sizes (rs @ [newParsingPath])
                     (memorize r d (py_prefix content sz) (snd (dup p w))))
      else learn_loop_with dup d p content sizes rs w)"

definition learn_with :: "(path \<Rightarrow> world \<Rightarrow> path \<times> world) \<Rightarrow> data \<Rightarrow> path option \<Rightarrow> bool \<Rightarrow> world \<Rightarrow> error + (path list \<times> world)" where
  "learn_with dup d parsingPath carnivorous w =
     (case parsingPath of
        None \<Rightarrow> Inl PathCannotBeNone
      | Some p \<Rightarrow>
          (case getDataAssignedToVariable p d of
             None \<Rightarrow> Inl TypeError
           | Some content \<Rightarrow>
               (let minSize = fst (size_bounds (dataType d));
                    maxSize = (case snd (size_bounds (dataType d)) of
                                 None \<Rightarrow> length content
                               | Some m \<Rightarrow> m)
                in if length content < minSize then Inr ([], w)
                   else
                     (let minSize' = (if carnivorous then length content else minSize);
                          maxSize' = (if carnivorous then length content else maxSize)
                      in learn_loop_with dup d p content
                           (xrange_down (int (min maxSize' (length content)))
                              (int minSize' - 1)) [] w))))"

text \<open>
  \<^verbatim>\<open>use\<close> reads \<^verbatim>\<open>memory.hasValue\<close> without testing the store against \<^verbatim>\<open>None\<close>, so a path
  without a store fails there. \<^verbatim>\<open>get_value\<close> fails on an absent entry; after
  \<^verbatim>\<open>hasValue\<close> has answered true that branch is never taken.
\<close>

definition use :: "data \<Rightarrow> path option \<Rightarrow> world \<Rightarrow> error + (path list \<times> world)" where
  "use d variableSpecializerPath w =
     (case variableSpecializerPath of
        None \<Rightarrow> Inl PathCannotBeNone
      | Some p \<Rightarrow>
          (case memory p of
             None \<Rightarrow> Inl AttributeError
           | Some r \<Rightarrow>
               if hasValue w r d then
                 (case getValue w r d of
                    None \<Rightarrow> Inl AttributeError
                  | Some v \<Rightarrow> Inr ([addResult d v p], w))
               else (case currentValue d of
                       Some v \<Rightarrow> Inr ([addResult d v p], w)
                     | None \<Rightarrow> Inr ([], w))))"

text \<open>
  The two regenerate forms call \<^verbatim>\<open>self.dataType.generate()\<close>, which advances the
  generator's randomness. \<^verbatim>\<open>regenerateAndMemorize\<close> writes to \<^verbatim>\<open>path.memory\<close> without
  testing it against \<^verbatim>\<open>None\<close>.
\<close>

definition regenerate :: "data \<Rightarrow> path option \<Rightarrow> world \<Rightarrow> error + (path list \<times> world)" where
  "regenerate d variableSpecializerPath w =
     (case variableSpecializerPath of
        None \<Rightarrow> Inl PathCannotBeNone
      | Some p \<Rightarrow>
          (let (newValue, e) = generate (dataType d) (entropy w)
           in Inr ([addResult d newValue p], w\<lparr>entropy := e\<rparr>)))"

definition regenerateAndMemorize :: "data \<Rightarrow> path option \<Rightarrow> world \<Rightarrow> error + (path list \<times> world)" where
  "regenerateAndMemorize d variableSpecializerPath w =
     (case variableSpecializerPath of
        None \<Rightarrow> Inl PathCannotBeNone
      | Some p \<Rightarrow>
          (let (newValue, e) = generate (dataType d) (entropy w)
           in case memory p of
                None \<Rightarrow> Inl AttributeError
              | Some r \<Rightarrow>
                  Inr ([addResult d newValue p], memorize r d newValue (w\<lparr>entropy := e\<rparr>))))"

section \<open>Sequences of Volatile-mode calls\<close>

text \<open>
  A caller that issues any number of \<^verbatim>\<open>domainCMP\<close> and \<^verbatim>\<open>regenerate\<close> calls, each on a
  path of its choice. A call that raises leaves the state as it was (both operations
  raise before any effect), and the caller goes on with the next call.
\<close>

datatype volatile_call =
    CallDomainCMP "path option" bool
  | CallRegenerate "path option"

fun volatile_step :: "data \<Rightarrow> world \<Rightarrow> volatile_call \<Rightarrow> world" where
  "volatile_step d w (CallDomainCMP parsingPath carnivorous) =
     (case domainCMP d parsingPath carnivorous w of
        Inl e \<Rightarrow> w
      | Inr (ps, w') \<Rightarrow> w')"
| "volatile_step d w (CallRegenerate variableSpecializerPath) =
     (case regenerate d variableSpecializerPath w of
        Inl e \<Rightarrow> w
      | Inr (ps, w') \<Rightarrow> w')"

definition volatile_run :: "data \<Rightarrow> world \<Rightarrow> volatile_call list \<Rightarrow> world" where
  "volatile_run d w calls = foldl (volatile_step d) w calls"

section \<open>Concrete inputs\<close>

text \<open>
  A small field type: sizes from 0 to 2 bits, a parseability test that accepts the
  sequences whose first bit is set, and a generator that draws two bits. The field has
  identity 7; the path holds the three bits 101 as the field's residual content and
  references the store at address 0.
\<close>

fun ex_canParse :: "bitarray \<Rightarrow> bool" where
  "ex_canParse [] = False"
| "ex_canParse (b # bs) = b"

fun ex_generate :: "nat \<Rightarrow> bitarray \<times> nat" where
  "ex_generate e = ([even e, True], Suc e)"

definition ex_type :: fieldType where
  "ex_type = \<lparr>size_bounds = (0, Some 2), canParse = ex_canParse, generate = ex_generate\<rparr>"

definition ex_long_type :: fieldType where
  "ex_long_type = \<lparr>size_bounds = (5, None), canParse = ex_canParse, generate = ex_generate\<rparr>"

definition ex_data :: data where
  "ex_data = \<lparr>ident = 7, dataType = ex_type, currentValue = None, svas = EPHEMERAL\<rparr>"

definition ex_long_data :: data where
  "ex_long_data = \<lparr>ident = 7, dataType = ex_long_type, currentValue = None, svas = VOLATILE\<rparr>"

definition ex_known_data :: data where
  "ex_known_data =
     \<lparr>ident = 7, dataType = ex_type, currentValue = Some [True, False], svas = CONSTANT\<rparr>"

definition ex_world :: world where
  "ex_world = \<lparr>memories = (\<lambda>r. Map.empty), entropy = 0, allocated = 1\<rparr>"

definition ex_bound_world :: world where
  "ex_bound_world = \<lparr>memories = (\<lambda>r. [7 \<mapsto> [True]]), entropy = 0, allocated = 1\<rparr>"

definition ex_path :: path where
  "ex_path =
     \<lparr>memory = Some 0,
      dataAssignedToVariable = [7 \<mapsto> [True, False, True]],
      results = Map.empty\<rparr>"

definition ex_path_no_store :: path where
  "ex_path_no_store =
     \<lparr>memory = None,
      dataAssignedToVariable = [7 \<mapsto> [True, False, True]],
      results = Map.empty\<rparr>"


lemmas ex_defs =
  ex_type_def ex_long_type_def ex_data_def ex_long_data_def ex_known_data_def
  ex_world_def ex_bound_world_def ex_path_def ex_path_no_store_def

section \<open>Facts about the helpers\<close>

lemma xrange_down_empty: "start \<le> stop \<Longrightarrow> xrange_down start stop = []"
  by (simp add: xrange_down.simps)

text \<open>
  The sizes the loops run over: with natural bounds, \<^verbatim>\<open>xrange(hi, lo - 1, -1)\<close> is
  hi, hi - 1, ..., lo, and is empty when hi is below lo. The bound \<open>lo - 1\<close> is taken in
  the integers, so that the size 0 is reached when lo is 0.
\<close>

lemma xrange_down_nat:
  "xrange_down (int hi) (int lo - 1) = map int (rev [lo ..< Suc hi])"
proof (induction hi)
  case 0
  show ?case
  proof (cases "lo = 0")
    case True
    then show ?thesis
      by (simp add: xrange_down.simps [of 0] xrange_down.simps [of "-1"])
  next
    case False
    then show ?thesis by (simp add: xrange_down.simps [of 0])
  qed
next
  case (Suc hi)
  show ?case
  proof (cases "lo \<le> Suc hi")
    case True
    have "xrange_down (int (Suc hi)) (int lo - 1)
            = int (Suc hi) # xrange_down (int hi) (int lo - 1)"
      using True by (subst xrange_down.simps) simp
    also have "\<dots> = int (Suc hi) # map int (rev [lo ..< Suc hi])"
      by (simp only: Suc.IH)
    also have "\<dots> = map int (rev [lo ..< Suc (Suc hi)])"
      using True by simp
    finally show ?thesis .
  next
    case False
    then have "xrange_down (int (Suc hi)) (int lo - 1) = []"
      by (intro xrange_down_empty) simp
    with False show ?thesis by simp
  qed
qed

lemma py_prefix_nat [simp]: "py_prefix c (int n) = take n c"
  by (simp add: py_prefix_def)

lemma results_addResult [simp]: "results (addResult d v p) (ident d) = Some v"
  by (simp add: addResult_def)

lemma memory_addResult [simp]: "memory (addResult d v p) = memory p"
  by (simp add: addResult_def)

lemma memory_duplicate [simp]: "memory (duplicate p) = memory p"
  by (simp add: duplicate_def)

lemma domainCMP_loop_filter:
  "domainCMP_loop d p c sizes rs =
     rs @ map (\<lambda>sz. addResult d (py_prefix c sz) (duplicate p))
            (filter (\<lambda>sz. sz = 0 \<or> canParse (dataType d) (py_prefix c sz)) sizes)"
  by (induction sizes arbitrary: rs) simp_all

lemma learn_loop_domainCMP_loop:
  "learn_loop d p c sizes rs w = Inr (ps, w') \<Longrightarrow> domainCMP_loop d p c sizes rs = ps"
  by (induction sizes arbitrary: rs w) (auto split: if_splits option.splits simp: Let_def)

text \<open>A \<^verbatim>\<open>learn\<close> call that returns has the successors \<^verbatim>\<open>domainCMP\<close> returns.\<close>

lemma learn_successors:
  assumes "learn d (Some p) carn w = Inr (ps, w')"
  shows "domainCMP d (Some p) carn w = Inr (ps, w)"
  using assms
  by (auto simp: learn_def domainCMP_def Let_def split: option.splits if_splits
           dest: learn_loop_domainCMP_loop)

section \<open>The Backtracking Matcher\<close>

text \<open>
  Claim C1. A \<^verbatim>\<open>domainCMP\<close> call with the carnivorous flag unset, on a path whose residual
  content for the field is c, with size bounds (min, max) where an unbounded max is
  clamped to the length of c: when c is shorter than min the call returns no successor;
  otherwise it returns, for the candidate lengths L from min(max, len c) down to min in
  descending order, one successor for each L that is 0 or whose prefix of c the type
  accepts, and that successor is a duplicate of the input path with the prefix of length
  L recorded as the field's result. The stores are left as they were.
\<close>

theorem domainCMP_enumerates:
  assumes "getDataAssignedToVariable p d = Some c"
    and "size_bounds (dataType d) = (minS, maxO)"
    and "maxS = (case maxO of None \<Rightarrow> length c | Some m \<Rightarrow> m)"
  shows "domainCMP d (Some p) False w =
           (if length c < minS then Inr ([], w)
            else Inr (map (\<lambda>L. addResult d (take L c) (duplicate p))
                       (filter (\<lambda>L. L = 0 \<or> canParse (dataType d) (take L c))
                          (rev [minS ..< Suc (min maxS (length c))])), w))"
  using assms
  by (simp add: domainCMP_def Let_def xrange_down_nat domainCMP_loop_filter filter_map comp_def)

theorem domainCMP_enumerates_witness:
  "getDataAssignedToVariable ex_path ex_data = Some [True, False, True]
   \<and> size_bounds (dataType ex_data) = (0, Some 2)
   \<and> domainCMP ex_data (Some ex_path) False ex_world =
        Inr ([addResult ex_data [True, False] ex_path,
              addResult ex_data [True] ex_path,
              addResult ex_data [] ex_path], ex_world)"
  using domainCMP_enumerates [of ex_path ex_data "[True, False, True]" 0 "Some 2" 2 ex_world]
  by (simp add: getDataAssignedToVariable_def ex_defs duplicate_def upt_rec)

text \<open>
  Claim C10. In \<^verbatim>\<open>domainCMP\<close> and in \<^verbatim>\<open>learn\<close> the minimum-size check comes before the
  carnivorous collapse of the bounds: a call with the carnivorous flag set whose
  residual content is strictly shorter than the declared minimum size returns no
  successor (and leaves the state as it was).
\<close>

theorem carnivorous_short_content:
  assumes "getDataAssignedToVariable p d = Some c"
    and "length c < fst (size_bounds (dataType d))"
  shows "domainCMP d (Some p) True w = Inr ([], w) \<and> learn d (Some p) True w = Inr ([], w)"
  using assms by (simp add: domainCMP_def learn_def)

theorem carnivorous_short_content_witness:
  "getDataAssignedToVariable ex_path ex_long_data = Some [True, False, True]
   \<and> length [True, False, True] < fst (size_bounds (dataType ex_long_data))
   \<and> domainCMP ex_long_data (Some ex_path) True ex_world = Inr ([], ex_world)
   \<and> learn ex_long_data (Some ex_path) True ex_world = Inr ([], ex_world)"
  using carnivorous_short_content [of ex_path ex_long_data "[True, False, True]" ex_world]
  by (simp add: getDataAssignedToVariable_def ex_defs)

text \<open>
  The carnivorous collapse replaces the declared maximum by the length of the residual
  content, so a carnivorous call can record more bits than the declared maximum: with a
  maximum of 2 bits and a residual content of 3 bits, both operations record all 3 bits.
\<close>

theorem carnivorous_exceeds_maximum:
  "snd (size_bounds (dataType ex_data)) = Some 2
   \<and> domainCMP ex_data (Some ex_path) True ex_world =
        Inr ([addResult ex_data [True, False, True] ex_path], ex_world)
   \<and> learn ex_data (Some ex_path) True ex_world =
        Inr ([addResult ex_data [True, False, True] ex_path],
             memorize 0 ex_data [True, False, True] ex_world)
   \<and> results (addResult ex_data [True, False, True] ex_path) (ident ex_data)
        = Some [True, False, True]
   \<and> 2 < length [True, False, True]"
  by (simp add: domainCMP_def learn_def getDataAssignedToVariable_def ex_defs
        xrange_down.simps py_prefix_def addResult_def duplicate_def memorize_def)

lemma domainCMP_result_bounds:
  assumes "getDataAssignedToVariable p d = Some c"
    and "domainCMP d (Some p) carn w = Inr (ps, w')"
    and "q \<in> set ps"
  shows "\<exists>v. results q (ident d) = Some v \<and> length v \<le> length c
           \<and> (if carn then length v = length c
               else (case snd (size_bounds (dataType d)) of
                       None \<Rightarrow> True
                     | Some m \<Rightarrow> length v \<le> m))"
proof (cases "length c < fst (size_bounds (dataType d))")
  case True
  with assms show ?thesis by (simp add: domainCMP_def)
next
  case False
  define hi where "hi = (if carn then length c
      else min (case snd (size_bounds (dataType d)) of None \<Rightarrow> length c | Some m \<Rightarrow> m) (length c))"
  define lo where "lo = (if carn then length c else fst (size_bounds (dataType d)))"
  from assms(1,2) False
  have "ps = map (\<lambda>L. addResult d (take L c) (duplicate p))
               (filter (\<lambda>L. L = 0 \<or> canParse (dataType d) (take L c)) (rev [lo ..< Suc hi]))"
    by (auto simp: domainCMP_def Let_def xrange_down_nat domainCMP_loop_filter filter_map
          comp_def hi_def lo_def)
  with assms(3) obtain L where L: "lo \<le> L" "L \<le> hi" and q: "q = addResult d (take L c) (duplicate p)"
    by auto
  have "hi \<le> length c" by (simp add: hi_def)
  with L have len: "length (take L c) = L" by simp
  show ?thesis
  proof (cases carn)
    case True
    with L have "L = length c" by (simp add: hi_def lo_def)
    with q True show ?thesis by simp
  next
    case False
    with L have "L \<le> length c"
      and "case snd (size_bounds (dataType d)) of None \<Rightarrow> True | Some m \<Rightarrow> L \<le> m"
      by (auto simp: hi_def split: option.splits)
    with q False len show ?thesis by (auto split: option.splits)
  qed
qed

text \<open>
  Claim C4, as amended. For every \<^verbatim>\<open>domainCMP\<close> or \<^verbatim>\<open>learn\<close> call on a path with residual
  content c, every returned successor records for the field a result that is no longer
  than c. With the carnivorous flag unset the result is also no longer than the type's
  declared maximum (when one is declared); with the carnivorous flag set its length is
  exactly the length of c, whatever the declared maximum.
\<close>

theorem matcher_result_bounds:
  assumes "getDataAssignedToVariable p d = Some c"
    and "domainCMP d (Some p) carn w = Inr (ps, w') \<or> learn d (Some p) carn w = Inr (ps, w')"
    and "q \<in> set ps"
  shows "\<exists>v. results q (ident d) = Some v \<and> length v \<le> length c
           \<and> (if carn then length v = length c
               else (case snd (size_bounds (dataType d)) of
                       None \<Rightarrow> True
                     | Some m \<Rightarrow> length v \<le> m))"
proof -
  from assms(2) obtain w'' where "domainCMP d (Some p) carn w = Inr (ps, w'')"
    by (auto dest: learn_successors)
  from domainCMP_result_bounds [OF assms(1) this assms(3)] show ?thesis .
qed

theorem matcher_result_bounds_witness:
  "getDataAssignedToVariable ex_path ex_data = Some [True, False, True]
   \<and> learn ex_data (Some ex_path) False ex_world =
        Inr ([addResult ex_data [True, False] ex_path,
              addResult ex_data [True] ex_path,
              addResult ex_data [] ex_path], memorize 0 ex_data [] ex_world)
   \<and> (\<exists>v. results (addResult ex_data [True] ex_path) (ident ex_data) = Some v
          \<and> length v \<le> 3 \<and> length v \<le> 2)"
proof -
  have c: "getDataAssignedToVariable ex_path ex_data = Some [True, False, True]"
    by (simp add: getDataAssignedToVariable_def ex_defs)
  have l: "learn ex_data (Some ex_path) False ex_world =
        Inr ([addResult ex_data [True, False] ex_path,
              addResult ex_data [True] ex_path,
              addResult ex_data [] ex_path], memorize 0 ex_data [] ex_world)"
    by (simp add: learn_def getDataAssignedToVariable_def ex_defs
        xrange_down.simps py_prefix_def addResult_def duplicate_def memorize_def)
  have s: "snd (size_bounds (dataType ex_data)) = Some 2"
    by (simp add: ex_defs)
  from matcher_result_bounds [OF c disjI2 [OF l], of "addResult ex_data [True] ex_path"] s
  have "\<exists>v. results (addResult ex_data [True] ex_path) (ident ex_data) = Some v
          \<and> length v \<le> 3 \<and> length v \<le> 2"
    by simp
  with c l show ?thesis by simp
qed

section \<open>The Exact Matcher\<close>

text \<open>
  Claim C2. A \<^verbatim>\<open>valueCMP\<close> call on a path with a store and residual content c, where an
  expected value v is resolvable (the store's entry for the field when it has one,
  otherwise the field's own value): the call returns exactly one successor, the path
  with v recorded as the field's result, when c is at least as long as v and begins
  with v; otherwise it returns no successor. The state is left as it was.
\<close>

theorem valueCMP_exact:
  assumes "memory p = Some r"
    and "getDataAssignedToVariable p d = Some c"
    and "(case memories w r (ident d) of Some m \<Rightarrow> Some m | None \<Rightarrow> currentValue d) = Some v"
  shows "valueCMP d (Some p) carn w =
           (if length v \<le> length c \<and> take (length v) c = v
            then Inr ([addResult d v p], w)
            else Inr ([], w))"
  using assms
  by (auto simp: valueCMP_def hasValue_def getValue_def split: option.splits)

theorem valueCMP_exact_witness:
  "memory ex_path = Some 0
   \<and> getDataAssignedToVariable ex_path ex_known_data = Some [True, False, True]
   \<and> memories ex_bound_world 0 (ident ex_known_data) = Some [True]
   \<and> currentValue ex_known_data = Some [True, False]
   \<and> valueCMP ex_known_data (Some ex_path) False ex_bound_world =
        Inr ([addResult ex_known_data [True] ex_path], ex_bound_world)"
  using valueCMP_exact [of ex_path 0 ex_known_data "[True, False, True]" ex_bound_world "[True]" False]
  by (simp add: getDataAssignedToVariable_def ex_defs)

text \<open>
  Claim C3. On a path with a store, \<^verbatim>\<open>valueCMP\<close> raises the error "has no value defined"
  exactly when no expected value is resolvable: the field has no value of its own and
  the store has no entry for it. When residual content is assigned this is the only
  case in which the call raises at all. An ordinary mismatch (content too short, or a
  prefix that differs) raises nothing: the call returns the empty successor collection.
\<close>

theorem valueCMP_no_value_error:
  assumes "memory p = Some r"
  shows "(valueCMP d (Some p) carn w = Inl NoValueDefined)
           = (currentValue d = None \<and> \<not> hasValue w r d)
         \<and> (getDataAssignedToVariable p d \<noteq> None \<longrightarrow>
              (\<exists>e. valueCMP d (Some p) carn w = Inl e)
                = (currentValue d = None \<and> \<not> hasValue w r d))
         \<and> (\<forall>v c. (if hasValue w r d then getValue w r d else currentValue d) = Some v
                \<and> getDataAssignedToVariable p d = Some c
                \<and> \<not> (length v \<le> length c \<and> take (length v) c = v)
              \<longrightarrow> valueCMP d (Some p) carn w = Inr ([], w))"
  using assms
  by (auto simp: valueCMP_def hasValue_def getValue_def split: option.splits if_splits)

theorem valueCMP_no_value_error_witness:
  "memory ex_path = Some 0
   \<and> currentValue ex_data = None \<and> \<not> hasValue ex_world 0 ex_data
   \<and> valueCMP ex_data (Some ex_path) False ex_world = Inl NoValueDefined
   \<and> getDataAssignedToVariable ex_path ex_known_data = Some [True, False, True]
   \<and> getValue ex_bound_world 0 ex_known_data = Some [True]
   \<and> valueCMP ex_known_data (Some (ex_path\<lparr>dataAssignedToVariable := [7 \<mapsto> [False, True]]\<rparr>)) False ex_bound_world
        = Inr ([], ex_bound_world)"
  using valueCMP_no_value_error [of ex_path 0 ex_data False ex_world]
    valueCMP_no_value_error [of "ex_path\<lparr>dataAssignedToVariable := [7 \<mapsto> [False, True]]\<rparr>" 0 ex_known_data False ex_bound_world]
  by (simp add: getDataAssignedToVariable_def hasValue_def getValue_def ex_defs)

section \<open>Memorization\<close>

lemma learn_loop_with_sharing:
  "learn_loop_with duplicate_sharing d p c sizes rs w = learn_loop d p c sizes rs w"
  by (induction sizes arbitrary: rs w)
     (auto simp: duplicate_sharing_def split: option.splits)

text \<open>\<^verbatim>\<open>learn\<close> is \<^verbatim>\<open>learn_with\<close> at the duplicate that shares the store.\<close>

lemma learn_with_sharing:
  "learn_with duplicate_sharing d parsingPath carn w = learn d parsingPath carn w"
  by (auto simp: learn_with_def learn_def learn_loop_with_sharing Let_def
        split: option.splits)

text \<open>Both duplicates write to no store but the store of the path they return.\<close>

lemma duplicate_sharing_frame:
  "memory (fst (duplicate_sharing p w)) \<noteq> Some r \<Longrightarrow>
   memories (snd (duplicate_sharing p w)) r = memories w r"
  by (simp add: duplicate_sharing_def)


text \<open>
  The loop, for any duplicate that writes to no store but the one of the path it
  returns: a store that no new successor references is left as it was, and a successor
  whose store no later successor references finds its recorded prefix in its store.
\<close>

lemma learn_loop_with_stores:
  assumes frame: "\<And>p w r. memory (fst (dup p w)) \<noteq> Some r \<Longrightarrow>
                            memories (snd (dup p w)) r = memories w r"
    and run: "learn_loop_with dup d p c sizes rs w = Inr (ps, w')"
  shows "\<exists>new. ps = rs @ new
           \<and> (\<forall>r. (\<forall>q \<in> set new. memory q \<noteq> Some r) \<longrightarrow> memories w' r = memories w r)
           \<and> (\<forall>pre q post. new = pre @ q # post \<and> (\<forall>q' \<in> set post. memory q' \<noteq> memory q) \<longrightarrow>
                  (\<exists>r sz. memory q = Some r \<and> sz \<in> set sizes
                      \<and> results q (ident d) = Some (py_prefix c sz)
                      \<and> memories w' r (ident d) = Some (py_prefix c sz)))"
  using run
proof (induction sizes arbitrary: rs w)
  case Nil
  then show ?case by simp
next
  case (Cons sz sizes)
  show ?case
  proof (cases "sz = 0 \<or> canParse (dataType d) (py_prefix c sz)")
    case False
    with Cons.prems have "learn_loop_with dup d p c sizes rs w = Inr (ps, w')" by simp
    from Cons.IH [OF this] obtain new where n: "ps = rs @ new"
      and f: "\<forall>r. (\<forall>q \<in> set new. memory q \<noteq> Some r) \<longrightarrow> memories w' r = memories w r"
      and cl: "\<forall>pre q post. new = pre @ q # post \<and> (\<forall>q' \<in> set post. memory q' \<noteq> memory q) \<longrightarrow>
                  (\<exists>r sz. memory q = Some r \<and> sz \<in> set sizes
                      \<and> results q (ident d) = Some (py_prefix c sz)
                      \<and> memories w' r (ident d) = Some (py_prefix c sz))"
      by blast
    have "\<forall>pre q post. new = pre @ q # post \<and> (\<forall>q' \<in> set post. memory q' \<noteq> memory q) \<longrightarrow>
                  (\<exists>r sz'. memory q = Some r \<and> sz' \<in> set (sz # sizes)
                      \<and> results q (ident d) = Some (py_prefix c sz')
                      \<and> memories w' r (ident d) = Some (py_prefix c sz'))"
    proof (intro allI impI)
      fix pre q post
      assume "new = pre @ q # post \<and> (\<forall>q' \<in> set post. memory q' \<noteq> memory q)"
      with cl obtain r sz' where "memory q = Some r" "sz' \<in> set sizes"
          "results q (ident d) = Some (py_prefix c sz')"
          "memories w' r (ident d) = Some (py_prefix c sz')"
        by blast
      then show "\<exists>r sz'. memory q = Some r \<and> sz' \<in> set (sz # sizes)
                      \<and> results q (ident d) = Some (py_prefix c sz')
                      \<and> memories w' r (ident d) = Some (py_prefix c sz')"
        by auto
    qed
    with n f show ?thesis by blast
  next
    case True
    define np where "np = addResult d (py_prefix c sz) (fst (dup p w))"
    define w1 where "w1 = snd (dup p w)"
    from True Cons.prems obtain r0 where r0: "memory np = Some r0"
      and rec: "learn_loop_with dup d p c sizes (rs @ [np]) (memorize r0 d (py_prefix c sz) w1)
                  = Inr (ps, w')"
      by (auto simp: np_def w1_def Let_def split: option.splits)
    let ?w2 = "memorize r0 d (py_prefix c sz) w1"
    from Cons.IH [OF rec] obtain new' where ps: "ps = (rs @ [np]) @ new'"
      and fr: "\<forall>r. (\<forall>q \<in> set new'. memory q \<noteq> Some r) \<longrightarrow> memories w' r = memories ?w2 r"
      and cl: "\<forall>pre q post. new' = pre @ q # post \<and> (\<forall>q' \<in> set post. memory q' \<noteq> memory q) \<longrightarrow>
                  (\<exists>r sz. memory q = Some r \<and> sz \<in> set sizes
                      \<and> results q (ident d) = Some (py_prefix c sz)
                      \<and> memories w' r (ident d) = Some (py_prefix c sz))"
      by blast
    have dupmem: "memory (fst (dup p w)) = Some r0"
      using r0 by (simp add: np_def)
    have w2_other: "memories ?w2 r = memories w r" if "r \<noteq> r0" for r
    proof -
      have "memories ?w2 r = memories w1 r" using that by (simp add: memorize_def)
      also have "\<dots> = memories w r"
        unfolding w1_def using that dupmem by (intro frame) simp
      finally show ?thesis .
    qed
    have w2_own: "memories ?w2 r0 (ident d) = Some (py_prefix c sz)"
      by (simp add: memorize_def)
    have A: "ps = rs @ (np # new')" using ps by simp
    have B: "\<forall>r. (\<forall>q \<in> set (np # new'). memory q \<noteq> Some r) \<longrightarrow> memories w' r = memories w r"
    proof (intro allI impI)
      fix r assume a: "\<forall>q \<in> set (np # new'). memory q \<noteq> Some r"
      then have "r \<noteq> r0" using r0 by auto
      moreover from a have "memories w' r = memories ?w2 r" using fr by simp
      ultimately show "memories w' r = memories w r" by (simp add: w2_other)
    qed
    have C: "\<forall>pre q post. np # new' = pre @ q # post \<and> (\<forall>q' \<in> set post. memory q' \<noteq> memory q) \<longrightarrow>
                  (\<exists>r sz'. memory q = Some r \<and> sz' \<in> set (sz # sizes)
                      \<and> results q (ident d) = Some (py_prefix c sz')
                      \<and> memories w' r (ident d) = Some (py_prefix c sz'))"
    proof (intro allI impI)
      fix pre q post
      assume a: "np # new' = pre @ q # post \<and> (\<forall>q' \<in> set post. memory q' \<noteq> memory q)"
      show "\<exists>r sz'. memory q = Some r \<and> sz' \<in> set (sz # sizes)
                      \<and> results q (ident d) = Some (py_prefix c sz')
                      \<and> memories w' r (ident d) = Some (py_prefix c sz')"
      proof (cases pre)
        case Nil
        with a have q: "q = np" and post: "post = new'" by simp_all
        with a r0 have "\<forall>q' \<in> set new'. memory q' \<noteq> Some r0" by simp
        with fr have "memories w' r0 = memories ?w2 r0" by simp
        with w2_own have "memories w' r0 (ident d) = Some (py_prefix c sz)" by simp
        moreover have "results np (ident d) = Some (py_prefix c sz)" by (simp add: np_def)
        ultimately show ?thesis using q r0 by auto
      next
        case (Cons x pre')
        with a have "new' = pre' @ q # post \<and> (\<forall>q' \<in> set post. memory q' \<noteq> memory q)" by simp
        with cl obtain r sz' where "memory q = Some r" "sz' \<in> set sizes"
            "results q (ident d) = Some (py_prefix c sz')"
            "memories w' r (ident d) = Some (py_prefix c sz')"
          by blast
        then show ?thesis by auto
      qed
    qed
    from A B C show ?thesis by blast
  qed
qed


lemma learn_with_loop:
  assumes "learn_with dup d (Some p) carn w = Inr (ps, w')"
  shows "ps = [] \<or> (\<exists>c sizes. getDataAssignedToVariable p d = Some c
            \<and> (\<forall>sz \<in> set sizes. 0 \<le> sz)
            \<and> learn_loop_with dup d p c sizes [] w = Inr (ps, w'))"
proof -
  from assms obtain c where c: "getDataAssignedToVariable p d = Some c"
    by (auto simp: learn_with_def split: option.splits)
  show ?thesis
  proof (cases "length c < fst (size_bounds (dataType d))")
    case True
    with assms c show ?thesis by (simp add: learn_with_def)
  next
    case False
    with assms c obtain hi lo where
      "learn_loop_with dup d p c (xrange_down (int hi) (int lo - 1)) [] w = Inr (ps, w')"
      by (auto simp: learn_with_def Let_def)
    moreover have "\<forall>sz \<in> set (xrange_down (int hi) (int lo - 1)). 0 \<le> sz"
      by (auto simp: xrange_down_nat)
    ultimately show ?thesis using c by blast
  qed
qed

lemma learn_with_stores:
  assumes frame: "\<And>p w r. memory (fst (dup p w)) \<noteq> Some r \<Longrightarrow>
                            memories (snd (dup p w)) r = memories w r"
    and run: "learn_with dup d (Some p) carn w = Inr (pre @ q # post, w')"
    and later: "\<forall>q' \<in> set post. memory q' \<noteq> memory q"
  shows "\<exists>r c L. memory q = Some r \<and> getDataAssignedToVariable p d = Some c
           \<and> results q (ident d) = Some (take L c)
           \<and> getValue w' r d = Some (take L c)"
proof -
  from learn_with_loop [OF run] obtain c sizes where
    c: "getDataAssignedToVariable p d = Some c" and nn: "\<forall>sz \<in> set sizes. 0 \<le> sz"
    and loop: "learn_loop_with dup d p c sizes [] w = Inr (pre @ q # post, w')"
    by auto
  from learn_loop_with_stores [OF frame loop] obtain new
    where n: "pre @ q # post = [] @ new"
      and cl: "\<forall>pre q post. new = pre @ q # post \<and> (\<forall>q' \<in> set post. memory q' \<noteq> memory q) \<longrightarrow>
                  (\<exists>r sz. memory q = Some r \<and> sz \<in> set sizes
                      \<and> results q (ident d) = Some (py_prefix c sz)
                      \<and> memories w' r (ident d) = Some (py_prefix c sz))"
    by blast
  from n have "new = pre @ q # post" by simp
  with cl later
  obtain r sz where "memory q = Some r" "sz \<in> set sizes"
      "results q (ident d) = Some (py_prefix c sz)"
      "memories w' r (ident d) = Some (py_prefix c sz)"
    by blast
  moreover from nn \<open>sz \<in> set sizes\<close> have "py_prefix c sz = take (nat sz) c"
    by (simp add: py_prefix_def)
  ultimately show ?thesis using c by (auto simp: getValue_def)
qed


text \<open>
  At the duplicate of the spec all successors share the store of the input path; there
  the last returned successor is the one that no later branch overwrites.
\<close>

lemma learn_last_successor:
  assumes "learn d (Some p) carn w = Inr (pre @ [q], w')"
  shows "\<exists>r c L. memory q = Some r \<and> getDataAssignedToVariable p d = Some c
           \<and> results q (ident d) = Some (take L c)
           \<and> getValue w' r d = Some (take L c)"
proof -
  from assms have "learn_with duplicate_sharing d (Some p) carn w = Inr (pre @ q # [], w')"
    by (simp add: learn_with_sharing)
  moreover have "\<forall>q' \<in> set []. memory q' \<noteq> memory q" by simp
  ultimately show ?thesis
    using learn_with_stores [where dup = duplicate_sharing and post = "[]"]
      duplicate_sharing_frame
    by blast
qed



section \<open>The Generator\<close>

text \<open>
  \<^verbatim>\<open>use\<close> returns no successor when the store has no entry for the field and the field
  has no value of its own.
\<close>


theorem use_returns_nothing:
  "memory ex_path = Some 0
   \<and> use ex_data (Some ex_path) ex_world = Inr ([], ex_world)"
  by (simp add: use_def hasValue_def ex_defs)

text \<open>
  Claim C6, as amended. \<^verbatim>\<open>regenerate\<close>, called on any specializing path, returns exactly
  one successor. \<^verbatim>\<open>regenerateAndMemorize\<close> and \<^verbatim>\<open>use\<close> need a path with a store: on a
  path without one both raise. On a path with a store \<^verbatim>\<open>regenerateAndMemorize\<close> returns
  exactly one successor, and \<^verbatim>\<open>use\<close> returns exactly one successor when the store has an
  entry for the field or the field has a value of its own, and no successor otherwise.
\<close>

theorem generator_successors:
  "(\<exists>q w'. regenerate d (Some p) w = Inr ([q], w'))
   \<and> (memory p = None \<longrightarrow>
        regenerateAndMemorize d (Some p) w = Inl AttributeError
        \<and> use d (Some p) w = Inl AttributeError)
   \<and> (\<forall>r. memory p = Some r \<longrightarrow>
        (\<exists>q w'. regenerateAndMemorize d (Some p) w = Inr ([q], w'))
        \<and> (\<exists>ps. use d (Some p) w = Inr (ps, w)
              \<and> length ps = (if hasValue w r d \<or> (\<exists>v. currentValue d = Some v)
                              then 1 else 0)))"
  by (auto simp: regenerate_def regenerateAndMemorize_def use_def hasValue_def getValue_def
        split: prod.splits option.splits)

theorem generator_successors_witness:
  "regenerate ex_data (Some ex_path) ex_world
     = Inr ([addResult ex_data [True, True] ex_path], ex_world\<lparr>entropy := 1\<rparr>)
   \<and> regenerateAndMemorize ex_data (Some ex_path) ex_world
        = Inr ([addResult ex_data [True, True] ex_path],
               memorize 0 ex_data [True, True] (ex_world\<lparr>entropy := 1\<rparr>))
   \<and> use ex_known_data (Some ex_path) ex_world
        = Inr ([addResult ex_known_data [True, False] ex_path], ex_world)
   \<and> memory ex_path = Some 0 \<and> hasValue ex_bound_world 0 ex_data
   \<and> (\<exists>ps. use ex_data (Some ex_path) ex_bound_world = Inr (ps, ex_bound_world)
          \<and> length ps = 1)
   \<and> memory ex_path_no_store = None
   \<and> regenerateAndMemorize ex_known_data (Some ex_path_no_store) ex_world = Inl AttributeError
   \<and> use ex_known_data (Some ex_path_no_store) ex_world = Inl AttributeError"
proof -
  have m: "memory ex_path = Some 0" "memory ex_path_no_store = None"
    by (simp_all add: ex_defs)
  have h: "hasValue ex_bound_world 0 ex_data"
    by (simp add: hasValue_def ex_defs)
  from generator_successors [of ex_data ex_path ex_bound_world] m h
  have u: "\<exists>ps. use ex_data (Some ex_path) ex_bound_world = Inr (ps, ex_bound_world)
          \<and> length ps = 1"
    by simp
  from generator_successors [of ex_known_data ex_path_no_store ex_world] m
  have n: "regenerateAndMemorize ex_known_data (Some ex_path_no_store) ex_world
             = Inl AttributeError"
      "use ex_known_data (Some ex_path_no_store) ex_world = Inl AttributeError"
    by simp_all
  have "regenerate ex_data (Some ex_path) ex_world
        = Inr ([addResult ex_data [True, True] ex_path], ex_world\<lparr>entropy := 1\<rparr>)"
    by (simp add: regenerate_def ex_defs)
  moreover have "regenerateAndMemorize ex_data (Some ex_path) ex_world
        = Inr ([addResult ex_data [True, True] ex_path],
               memorize 0 ex_data [True, True] (ex_world\<lparr>entropy := 1\<rparr>))"
    by (simp add: regenerateAndMemorize_def ex_defs)
  moreover have "use ex_known_data (Some ex_path) ex_world
        = Inr ([addResult ex_known_data [True, False] ex_path], ex_world)"
    by (simp add: use_def hasValue_def ex_defs)
  ultimately show ?thesis using m h u n by simp
qed

text \<open>
  Claim C7. A \<^verbatim>\<open>use\<close> call on a specializing path (with its store): when the store has an
  entry for the field, the call returns one successor with the store's value recorded;
  otherwise, when the field has a value of its own, one successor with that value
  recorded; otherwise no successor. The state after the call is the state before it (no
  write to any store, and the generator's randomness is not advanced), and the outcome
  is the same whatever the field's type and its generator are.
\<close>


theorem use_store_then_known:
  assumes "memory p = Some r"
  shows "use d (Some p) w =
           Inr (case memories w r (ident d) of
                  Some v \<Rightarrow> [addResult d v p]
                | None \<Rightarrow> (case currentValue d of
                             Some v \<Rightarrow> [addResult d v p]
                           | None \<Rightarrow> []),
                w)
         \<and> use (d\<lparr>dataType := t\<rparr>) (Some p) w = use d (Some p) w"
  using assms
  by (auto simp: use_def hasValue_def getValue_def addResult_def split: option.splits)

theorem use_store_then_known_witness:
  "memory ex_path = Some 0
   \<and> memories ex_bound_world 0 (ident ex_known_data) = Some [True]
   \<and> currentValue ex_known_data = Some [True, False]
   \<and> use ex_known_data (Some ex_path) ex_bound_world
        = Inr ([addResult ex_known_data [True] ex_path], ex_bound_world)
   \<and> use (ex_known_data\<lparr>dataType := ex_long_type\<rparr>) (Some ex_path) ex_bound_world
        = use ex_known_data (Some ex_path) ex_bound_world"
  using use_store_then_known [of ex_path 0 ex_known_data ex_bound_world ex_long_type]
  by (simp add: ex_defs)

section \<open>Volatile mode leaves the stores alone\<close>


lemma domainCMP_world:
  "domainCMP d pp carn w = Inr (ps, w') \<Longrightarrow> w' = w"
  by (auto simp: domainCMP_def Let_def split: option.splits if_splits)

lemma regenerate_memories:
  "regenerate d sp w = Inr (ps, w') \<Longrightarrow> memories w' = memories w"
  by (auto simp: regenerate_def split: option.splits prod.splits)

lemma volatile_step_memories: "memories (volatile_step d w c) = memories w"
  by (cases c) (auto split: sum.splits dest: domainCMP_world regenerate_memories)

lemma volatile_run_memories: "memories (volatile_run d w calls) = memories w"
  unfolding volatile_run_def
  by (induction calls arbitrary: w) (simp_all add: volatile_step_memories)

text \<open>
  Claim C8. Neither \<^verbatim>\<open>domainCMP\<close> nor \<^verbatim>\<open>regenerate\<close> writes to a Binding Store: after any
  sequence of such calls, on any paths, every store is as it was before the sequence; in
  particular a store that had no entry for the field before has none after.
\<close>

theorem volatile_never_writes:
  "memories (volatile_run d w calls) = memories w
   \<and> (\<not> hasValue w r d \<longrightarrow> \<not> hasValue (volatile_run d w calls) r d)"
  by (simp add: volatile_run_memories hasValue_def)

theorem volatile_never_writes_witness:
  "\<not> hasValue ex_world 0 ex_data
   \<and> \<not> hasValue (volatile_run ex_data ex_world
          [CallDomainCMP (Some ex_path) False, CallRegenerate (Some ex_path),
           CallDomainCMP (Some ex_path) True, CallRegenerate (Some ex_path)]) 0 ex_data
   \<and> entropy (volatile_run ex_data ex_world
          [CallDomainCMP (Some ex_path) False, CallRegenerate (Some ex_path),
           CallDomainCMP (Some ex_path) True, CallRegenerate (Some ex_path)]) = 2"
proof -
  have h: "\<not> hasValue ex_world 0 ex_data" by (simp add: hasValue_def ex_defs)
  have e: "entropy (volatile_run ex_data ex_world
          [CallDomainCMP (Some ex_path) False, CallRegenerate (Some ex_path),
           CallDomainCMP (Some ex_path) True, CallRegenerate (Some ex_path)]) = 2"
    by (simp add: volatile_run_def domainCMP_def regenerate_def getDataAssignedToVariable_def
          ex_defs)
  from volatile_never_writes [of ex_data ex_world
          "[CallDomainCMP (Some ex_path) False, CallRegenerate (Some ex_path),
            CallDomainCMP (Some ex_path) True, CallRegenerate (Some ex_path)]" 0] h e
  show ?thesis by simp
qed

section \<open>The value-definedness query\<close>

text \<open>
  A field with a value of its own is defined on a path that has no store: the query
  returns before it looks at the store.
\<close>


theorem isDefined_without_store:
  "memory ex_path_no_store = None
   \<and> isDefined ex_known_data (Some ex_path_no_store) ex_world = Inr True"
  by (simp add: isDefined_def ex_defs)

text \<open>
  Claim C9, as amended. \<^verbatim>\<open>isDefined\<close> on a path returns true if and only if the field has
  a value of its own or the store attached to the path has an entry for the field. It
  raises an error exactly when the path is \<^verbatim>\<open>None\<close>, or the field has no value of its
  own and the path has no store attached; in every other case it returns a boolean.
\<close>

theorem isDefined_query:
  "(isDefined d (Some p) w = Inr True)
     = ((\<exists>v. currentValue d = Some v) \<or> (\<exists>r. memory p = Some r \<and> hasValue w r d))
   \<and> ((\<exists>e. isDefined d pathArg w = Inl e)
     = (pathArg = None \<or> (\<exists>p. pathArg = Some p \<and> currentValue d = None \<and> memory p = None)))
   \<and> ((\<exists>b. isDefined d pathArg w = Inr b)
     = (\<exists>p. pathArg = Some p \<and> ((\<exists>v. currentValue d = Some v) \<or> (\<exists>r. memory p = Some r))))"
  by (auto simp: isDefined_def split: option.splits)

theorem isDefined_query_witness:
  "isDefined ex_data (Some ex_path) ex_bound_world = Inr True
   \<and> isDefined ex_data (Some ex_path) ex_world = Inr False
   \<and> isDefined ex_data (Some ex_path_no_store) ex_world = Inl NoMemoryAttached
   \<and> isDefined ex_data None ex_world = Inl PathCannotBeNone"
proof -
  have "isDefined ex_data (Some ex_path) ex_bound_world = Inr True"
    using isDefined_query [of ex_data ex_path ex_bound_world None]
    by (simp add: hasValue_def ex_defs)
  moreover have "isDefined ex_data (Some ex_path) ex_world = Inr False"
    "isDefined ex_data (Some ex_path_no_store) ex_world = Inl NoMemoryAttached"
    "isDefined ex_data None ex_world = Inl PathCannotBeNone"
    by (simp_all add: isDefined_def hasValue_def ex_defs)
  ultimately show ?thesis by simp
qed

end
